theory Spec2Isabelle
  imports Complex_Main
begin

section \<open>Data model\<close>

subsection \<open>Velocity commands\<close>

text \<open>
  The components of a \<^verbatim>\<open>geometry_msgs::msg::Twist\<close> are IEEE-754 doubles. The code only
  copies them, takes \<^verbatim>\<open>std::abs\<close> of them and compares them with \<^verbatim>\<open><\<close>; all three are
  exact, so a double is modelled by the real number it denotes, or by one of the three
  special values. The two zeros compare equal and have the same absolute value, so both
  are \<open>Finite 0\<close>.
\<close>

datatype float64 = Finite real | PlusInf | MinusInf | NaN

text \<open>\<^verbatim>\<open>std::abs\<close> on a double.\<close>

fun fabs :: "float64 \<Rightarrow> float64" where
  "fabs (Finite r) = Finite \<bar>r\<bar>"
| "fabs PlusInf = PlusInf"
| "fabs MinusInf = PlusInf"
| "fabs NaN = NaN"

text \<open>The operator \<^verbatim>\<open><\<close> on doubles: false whenever an operand is NaN.\<close>

fun fless :: "float64 \<Rightarrow> float64 \<Rightarrow> bool" where
  "fless NaN _ = False"
| "fless _ NaN = False"
| "fless (Finite a) (Finite b) = (a < b)"
| "fless (Finite _) PlusInf = True"
| "fless (Finite _) MinusInf = False"
| "fless MinusInf (Finite _) = True"
| "fless MinusInf PlusInf = True"
| "fless MinusInf MinusInf = False"
| "fless PlusInf _ = False"

record Vector3 =
  vec_x :: float64
  vec_y :: float64
  vec_z :: float64

record Twist =
  linear :: Vector3
  angular :: Vector3

text \<open>Clock readings and durations, in nanoseconds (the representation of \<^verbatim>\<open>rclcpp::Time\<close>).\<close>

type_synonym time = int

record Header =
  stamp :: time
  frame_id :: string

record TwistStamped =
  header :: Header
  twist :: Twist

text \<open>A default-constructed message header: zero time stamp, empty frame id.\<close>

definition default_Header :: Header where
  "default_Header = \<lparr>stamp = 0, frame_id = []\<rparr>"

subsection \<open>Topic handles\<close>

text \<open>
  Modelled from the spec: the declaration of \<^verbatim>\<open>priority_type\<close> in \<^verbatim>\<open>topic_handle.hpp\<close> is
  missing. A priority is a non-negative integer. The code never computes with
  priorities, it only copies and compares them, so no width is needed and they are
  natural numbers here.
\<close>

type_synonym priority_type = nat

text \<open>
  What every topic handle is constructed from in \<^verbatim>\<open>getTopicHandles\<close> (name, topic, timeout,
  priority), and the time of its last reception. The fields carry the names of the
  accessors the code reads them with.
\<close>

record TopicHandle =
  getName :: string
  getTopic :: string
  getTimeout :: time
  getPriority :: priority_type
  getStamp :: "time option"

text \<open>
  Modelled from the spec: \<^verbatim>\<open>hasExpired\<close> of \<^verbatim>\<open>topic_handle.hpp\<close> is missing. A handle is
  stale when it has never received data, or when the time since its last reception is at
  least its timeout.
\<close>

definition hasExpired :: "'a TopicHandle_scheme \<Rightarrow> time \<Rightarrow> bool" where
  "hasExpired h now =
     (case getStamp h of None \<Rightarrow> True | Some t \<Rightarrow> getTimeout h \<le> now - t)"

record LockTopicHandle = TopicHandle +
  lock_data :: bool

text \<open>
  Modelled from the spec: \<^verbatim>\<open>LockTopicHandle::isLocked\<close> of \<^verbatim>\<open>topic_handle.hpp\<close> is missing.
  A lock is locked when its last received assertion is true and the time since that
  reception is less than its timeout; a lock that has never been received is not locked.
\<close>

definition isLocked :: "LockTopicHandle \<Rightarrow> time \<Rightarrow> bool" where
  "isLocked lock_h now =
     (case getStamp lock_h of None \<Rightarrow> False
      | Some t \<Rightarrow> lock_data lock_h \<and> now - t < getTimeout lock_h)"

text \<open>The two message types a velocity topic can carry, and so \<^verbatim>\<open>publishTwist\<close> can be given.\<close>

datatype in_msg = TwistMsg Twist | TwistStampedMsg TwistStamped

text \<open>
  \<^verbatim>\<open>velocity_handle_variant\<close> holds a \<^verbatim>\<open>VelocityTopicHandle\<close> for one of the two message
  types; every visitor in the code treats both alternatives alike, so the alternative is
  the flag \<open>stamped_topic\<close>.
\<close>

record VelocityTopicHandle = TopicHandle +
  stamped_topic :: bool
  last_msg :: "in_msg option"

text \<open>
  Modelled from the spec: \<^verbatim>\<open>VelocityTopicHandle::isMasked\<close> of \<^verbatim>\<open>topic_handle.hpp\<close> is
  missing. A source is masked when it is stale, or when its priority is strictly less
  than the lock priority it is given.
\<close>

definition isMasked :: "VelocityTopicHandle \<Rightarrow> priority_type \<Rightarrow> time \<Rightarrow> bool" where
  "isMasked h lock_priority now = (hasExpired h now \<or> getPriority h < lock_priority)"

subsection \<open>The node\<close>

text \<open>
  \<^verbatim>\<open>cmd_pub_\<close> is a variant over the two publisher types. \<open>NoPublisher\<close> is its state
  before \<^verbatim>\<open>init\<close>: a null pointer, on which every \<^verbatim>\<open>dynamic_pointer_cast\<close> fails.
\<close>

datatype publisher_variant = NoPublisher | TwistPublisher | TwistStampedPublisher

text \<open>
  The fields of \<^verbatim>\<open>TwistMux\<close> that the functions below touch. \<open>node_now\<close> is the reading of
  the node's clock during the call at hand: the clock is sampled once per call, and all
  handles evaluated in that call are compared against the same reading. (Isabelle names
  cannot end in an underscore, so \<^verbatim>\<open>velocity_hs_\<close>, \<^verbatim>\<open>lock_hs_\<close> and \<^verbatim>\<open>cmd_pub_\<close> lose
  theirs.)
\<close>

record TwistMux =
  velocity_hs :: "VelocityTopicHandle list"
  lock_hs :: "LockTopicHandle list"
  output_stamped :: bool
  cmd_pub :: publisher_variant
  node_now :: time

section \<open>Operations\<close>

subsection \<open>hasIncreasedAbsVelocity\<close>

definition hasIncreasedAbsVelocity :: "Twist \<Rightarrow> Twist \<Rightarrow> bool" where
  "hasIncreasedAbsVelocity old_twist new_twist =
     (let old_linear_x = fabs (vec_x (linear old_twist));
          new_linear_x = fabs (vec_x (linear new_twist));
          old_angular_z = fabs (vec_z (angular old_twist));
          new_angular_z = fabs (vec_z (angular new_twist))
      in fless old_linear_x new_linear_x \<or> fless old_angular_z new_angular_z)"

subsection \<open>getLockPriority\<close>

text \<open>The loop over \<^verbatim>\<open>*lock_hs_\<close>, with the running maximum \<^verbatim>\<open>priority\<close> as accumulator.\<close>

fun lock_loop :: "time \<Rightarrow> LockTopicHandle list \<Rightarrow> priority_type \<Rightarrow> priority_type" where
  "lock_loop now [] priority = priority"
| "lock_loop now (lock_h # rest) priority =
     (if isLocked lock_h now then
        (let tmp = getPriority lock_h
         in if priority < tmp then lock_loop now rest tmp
            else lock_loop now rest priority)
      else lock_loop now rest priority)"

text \<open>
  \<^verbatim>\<open>getLockPriority\<close> is a non-const member function: it takes the node and returns the
  node along with its result.
\<close>

definition getLockPriority :: "TwistMux \<Rightarrow> priority_type \<times> TwistMux" where
  "getLockPriority mux = (lock_loop (node_now mux) (lock_hs mux) 0, mux)"

subsection \<open>hasPriority\<close>

text \<open>
  The loop over \<^verbatim>\<open>*velocity_hs_\<close>. The accumulator is the pair of the locals \<^verbatim>\<open>priority\<close>
  and \<^verbatim>\<open>velocity_name\<close>.
\<close>

fun velocity_loop ::
  "time \<Rightarrow> priority_type \<Rightarrow> VelocityTopicHandle list \<Rightarrow> priority_type \<times> string
     \<Rightarrow> priority_type \<times> string" where
  "velocity_loop now lock_priority [] acc = acc"
| "velocity_loop now lock_priority (handle # rest) (priority, velocity_name) =
     (if \<not> isMasked handle lock_priority now then
        (let velocity_priority = getPriority handle
         in if priority < velocity_priority
            then velocity_loop now lock_priority rest (velocity_priority, getName handle)
            else velocity_loop now lock_priority rest (priority, velocity_name))
      else velocity_loop now lock_priority rest (priority, velocity_name))"

text \<open>
  \<^verbatim>\<open>hasPriority\<close> reads the handles and changes nothing, so only its result is returned.
  The locals start as \<^verbatim>\<open>priority = 0\<close> and \<^verbatim>\<open>velocity_name = "NULL"\<close>.
\<close>

definition hasPriority :: "TwistMux \<Rightarrow> VelocityTopicHandle \<Rightarrow> bool" where
  "hasPriority mux twist_h =
     (let (lock_priority, mux1) = getLockPriority mux;
          (priority, velocity_name) =
             velocity_loop (node_now mux1) lock_priority (velocity_hs mux1) (0, ''NULL'')
      in getName twist_h = velocity_name)"

subsection \<open>Construction and init\<close>

text \<open>The constructor sets \<^verbatim>\<open>output_stamped(false)\<close>; the containers and the publisher are unset.\<close>

definition TwistMux_new :: "time \<Rightarrow> TwistMux" where
  "TwistMux_new now =
     \<lparr>velocity_hs = [], lock_hs = [], output_stamped = False, cmd_pub = NoPublisher,
      node_now = now\<rparr>"

text \<open>
  \<^verbatim>\<open>init\<close>. What it reads from the parameter server is passed in: \<open>topics\<close> and \<open>locks\<close>
  are the handles that the two calls of \<^verbatim>\<open>getTopicHandles\<close> append, in the order of the
  listed parameter prefixes, and \<open>output_stamped_param\<close> is the value of the parameter
  \<^verbatim>\<open>output_stamped\<close>. (When \<^verbatim>\<open>getTopicHandles\<close> throws, \<^verbatim>\<open>init\<close> does not return and there is
  no initialised node.) The diagnostics objects are left out.
\<close>

definition init ::
  "VelocityTopicHandle list \<Rightarrow> LockTopicHandle list \<Rightarrow> bool \<Rightarrow> TwistMux \<Rightarrow> TwistMux" where
  "init topics locks output_stamped_param mux =
     (let mux1 = mux\<lparr>velocity_hs := topics, lock_hs := locks\<rparr>;
          mux2 = mux1\<lparr>output_stamped := output_stamped_param\<rparr>
      in if output_stamped mux2 then mux2\<lparr>cmd_pub := TwistStampedPublisher\<rparr>
         else mux2\<lparr>cmd_pub := TwistPublisher\<rparr>)"

subsection \<open>publishTwist\<close>

text \<open>What a call of \<^verbatim>\<open>publishTwist\<close> does: publish one message, or report a fatal error.\<close>

datatype out_msg = OutTwist Twist | OutTwistStamped TwistStamped

datatype publish_result = Published out_msg | Fatal string

text \<open>
  The outer test is on \<^verbatim>\<open>output_stamped\<close>, the next one is the \<^verbatim>\<open>dynamic_pointer_cast\<close> of
  the publisher held by \<^verbatim>\<open>cmd_pub_\<close>, and the \<open>case\<close> is the \<^verbatim>\<open>if constexpr\<close> on the type
  of the message.
\<close>

definition publishTwist :: "TwistMux \<Rightarrow> in_msg \<Rightarrow> publish_result" where
  "publishTwist mux m =
     (if output_stamped mux then
        (if cmd_pub mux = TwistStampedPublisher then
           (case m of
              TwistStampedMsg s \<Rightarrow> Published (OutTwistStamped s)
            | TwistMsg t \<Rightarrow>
                (let twist_stamped_msg = \<lparr>header = default_Header, twist = t\<rparr>
                 in Published (OutTwistStamped twist_stamped_msg)))
         else Fatal ''Expected TwistStamped publisher, but received different type.'')
      else
        (if cmd_pub mux = TwistPublisher then
           (case m of
              TwistStampedMsg s \<Rightarrow> Published (OutTwist (twist s))
            | TwistMsg t \<Rightarrow> Published (OutTwist t))
         else Fatal ''Expected Twist publisher, but received different type.''))"

subsection \<open>Reception of a velocity command\<close>

datatype error = UnknownName string

text \<open>The handle registered under a name, updated with a received message.\<close>

fun update_handle ::
  "string \<Rightarrow> in_msg \<Rightarrow> time \<Rightarrow> VelocityTopicHandle list
     \<Rightarrow> (VelocityTopicHandle \<times> VelocityTopicHandle list) option" where
  "update_handle source_name m now [] = None"
| "update_handle source_name m now (h # rest) =
     (if getName h = source_name then
        (let h1 = h\<lparr>getStamp := Some now, last_msg := Some m\<rparr> in Some (h1, h1 # rest))
      else
        (case update_handle source_name m now rest of
           None \<Rightarrow> None
         | Some (h1, rest1) \<Rightarrow> Some (h1, h # rest1)))"

text \<open>
  Modelled from the spec: the reception callback of \<^verbatim>\<open>VelocityTopicHandle\<close> in
  \<^verbatim>\<open>topic_handle.hpp\<close> is missing. A reception updates the handle of the named source, then
  asks \<^verbatim>\<open>hasPriority\<close> for that source, and the command is published if and only if the
  answer is yes; otherwise it is dropped. An unregistered name is an error and leaves
  the node as it was.
\<close>

definition onVelocityReceived ::
  "TwistMux \<Rightarrow> string \<Rightarrow> in_msg \<Rightarrow> error + (publish_result option \<times> TwistMux)" where
  "onVelocityReceived mux source_name m =
     (case update_handle source_name m (node_now mux) (velocity_hs mux) of
        None \<Rightarrow> Inl (UnknownName source_name)
      | Some (h1, hs1) \<Rightarrow>
          (let mux1 = mux\<lparr>velocity_hs := hs1\<rparr>
           in if hasPriority mux1 h1 then Inr (Some (publishTwist mux1 m), mux1)
              else Inr (None, mux1)))"

section \<open>Notions of the specification\<close>

text \<open>
  What the specification calls the winner: an unmasked source that no unmasked source
  exceeds in priority, and that every unmasked source registered before it is strictly
  below (the first maximum). The source is given by its position \<open>i\<close> in registration
  order; masking is taken with the effective lock priority of the node.
\<close>

definition first_max_winner :: "TwistMux \<Rightarrow> nat \<Rightarrow> bool" where
  "first_max_winner mux i =
     (let vs = velocity_hs mux;
          lock_priority = fst (getLockPriority mux);
          now = node_now mux
      in i < length vs \<and> \<not> isMasked (vs ! i) lock_priority now \<and>
         (\<forall>h\<in>set vs. \<not> isMasked h lock_priority now \<longrightarrow> getPriority h \<le> getPriority (vs ! i)) \<and>
         (\<forall>h\<in>set (take i vs).
             \<not> isMasked h lock_priority now \<longrightarrow> getPriority h < getPriority (vs ! i)))"

text \<open>
  The stricter reading: an unmasked source whose priority is strictly greater than that
  of every other unmasked source.
\<close>

definition strictly_greatest_unmasked :: "TwistMux \<Rightarrow> nat \<Rightarrow> bool" where
  "strictly_greatest_unmasked mux i =
     (let vs = velocity_hs mux;
          lock_priority = fst (getLockPriority mux);
          now = node_now mux
      in i < length vs \<and> \<not> isMasked (vs ! i) lock_priority now \<and>
         (\<forall>h\<in>set (take i vs @ drop (Suc i) vs).
             \<not> isMasked h lock_priority now \<longrightarrow> getPriority h < getPriority (vs ! i)))"

text \<open>The node after the source at position \<open>i\<close> has received the message \<open>m\<close>.\<close>

definition received :: "TwistMux \<Rightarrow> nat \<Rightarrow> in_msg \<Rightarrow> TwistMux" where
  "received mux i m =
     mux\<lparr>velocity_hs :=
       (velocity_hs mux)[i := (velocity_hs mux ! i)\<lparr>getStamp := Some (node_now mux),
                                                   last_msg := Some m\<rparr>]\<rparr>"

text \<open>
  The four conversions of the output adapter: pass a stamped command through, strip a
  stamped command to its payload, wrap a bare command, pass a bare command through.
\<close>

definition four_cases :: "bool \<Rightarrow> in_msg \<Rightarrow> out_msg" where
  "four_cases stamped_output m =
     (case (m, stamped_output) of
        (TwistStampedMsg s, True) \<Rightarrow> OutTwistStamped s
      | (TwistStampedMsg s, False) \<Rightarrow> OutTwist (twist s)
      | (TwistMsg t, True) \<Rightarrow> OutTwistStamped \<lparr>header = default_Header, twist = t\<rparr>
      | (TwistMsg t, False) \<Rightarrow> OutTwist t)"

text \<open>The publisher is the one that \<^verbatim>\<open>init\<close> creates for the value of \<^verbatim>\<open>output_stamped\<close>.\<close>

definition publisher_matches :: "TwistMux \<Rightarrow> bool" where
  "publisher_matches mux =
     (cmd_pub mux = (if output_stamped mux then TwistStampedPublisher else TwistPublisher))"

text \<open>
  The absolute value of \<open>a\<close> exceeds the absolute value of \<open>b\<close>, said without \<open>fabs\<close> and
  \<open>fless\<close>: a NaN exceeds nothing and is exceeded by nothing, an infinity exceeds every
  finite value, and finite values compare by their magnitudes.
\<close>

fun abs_exceeds :: "float64 \<Rightarrow> float64 \<Rightarrow> bool" where
  "abs_exceeds (Finite a) (Finite b) = (\<bar>b\<bar> < \<bar>a\<bar>)"
| "abs_exceeds PlusInf (Finite b) = True"
| "abs_exceeds MinusInf (Finite b) = True"
| "abs_exceeds _ _ = False"

text \<open>What a publish call put on the output topic: the time stamp, if any, and the payload.\<close>

fun out_stamp :: "publish_result \<Rightarrow> time option" where
  "out_stamp (Published (OutTwistStamped s)) = Some (stamp (header s))"
| "out_stamp (Published (OutTwist t)) = None"
| "out_stamp (Fatal e) = None"

fun out_payload :: "publish_result \<Rightarrow> Twist option" where
  "out_payload (Published (OutTwistStamped s)) = Some (twist s)"
| "out_payload (Published (OutTwist t)) = Some t"
| "out_payload (Fatal e) = None"

section \<open>Example configurations\<close>

definition twist1 :: Twist where
  "twist1 = \<lparr>linear = \<lparr>vec_x = Finite 1, vec_y = Finite 0, vec_z = Finite 0\<rparr>,
            angular = \<lparr>vec_x = Finite 0, vec_y = Finite 0, vec_z = Finite (1/2)\<rparr>\<rparr>"

definition twist2 :: Twist where
  "twist2 = \<lparr>linear = \<lparr>vec_x = Finite (-2), vec_y = Finite 3, vec_z = NaN\<rparr>,
            angular = \<lparr>vec_x = PlusInf, vec_y = Finite 0, vec_z = Finite (1/4)\<rparr>\<rparr>"

definition stamped1 :: TwistStamped where
  "stamped1 = \<lparr>header = \<lparr>stamp = 7, frame_id = ''base_link''\<rparr>, twist = twist1\<rparr>"

text \<open>A velocity source that last received a bare command at time 0.\<close>

definition source :: "string \<Rightarrow> time \<Rightarrow> priority_type \<Rightarrow> VelocityTopicHandle" where
  "source n tmo p =
     \<lparr>getName = n, getTopic = ''cmd_vel'', getTimeout = tmo, getPriority = p,
      getStamp = Some 0, stamped_topic = False, last_msg = Some (TwistMsg twist1)\<rparr>"

text \<open>A lock that was asserted at time 0.\<close>

definition asserted_lock :: "string \<Rightarrow> time \<Rightarrow> priority_type \<Rightarrow> LockTopicHandle" where
  "asserted_lock n tmo p =
     \<lparr>getName = n, getTopic = ''lock'', getTimeout = tmo, getPriority = p,
      getStamp = Some 0, lock_data = True\<rparr>"

text \<open>Two fresh sources of priorities 1 and 5, no locks, at time 1.\<close>

definition two_sources :: TwistMux where
  "two_sources =
     init [source ''topics.drive'' 10 1, source ''topics.teleop'' 5 5] [] False
       (TwistMux_new 1)"

text \<open>Two fresh sources of the same priority 5.\<close>

definition tie_mux :: TwistMux where
  "tie_mux =
     init [source ''topics.first'' 10 5, source ''topics.second'' 10 5] [] False
       (TwistMux_new 1)"

text \<open>Two fresh sources of the same priority 0.\<close>

definition zero_mux :: TwistMux where
  "zero_mux =
     init [source ''topics.first'' 10 0, source ''topics.second'' 10 0] [] False
       (TwistMux_new 1)"

text \<open>
  A source of priority 1 under two asserted locks of priorities 10 and 3, both with
  timeout 20, at time 1; the output is time-stamped.
\<close>

definition locked_mux :: TwistMux where
  "locked_mux =
     init [source ''topics.drive'' 10 1]
       [asserted_lock ''locks.pause'' 20 3, asserted_lock ''locks.estop'' 20 10] True
       (TwistMux_new 1)"

section \<open>Auxiliary facts\<close>

lemma Max_insert_insert:
  fixes p q :: nat
  assumes "finite S"
  shows "Max (insert p (insert q S)) = Max (insert (max p q) S)"
proof (cases "S = {}")
  case True
  then show ?thesis by simp
next
  case False
  with assms show ?thesis by (simp add: max.assoc)
qed

text \<open>The lock loop computes the maximum of its start value and the locked priorities.\<close>

lemma lock_loop_Max:
  "lock_loop now ls p = Max (insert p (getPriority ` {l \<in> set ls. isLocked l now}))"
proof (induction ls arbitrary: p)
  case Nil
  then show ?case by simp
next
  case (Cons l ls)
  let ?S = "getPriority ` {k \<in> set ls. isLocked k now}"
  have fin: "finite ?S" by simp
  show ?case
  proof (cases "isLocked l now")
    case False
    then have "{k \<in> set (l # ls). isLocked k now} = {k \<in> set ls. isLocked k now}" by auto
    with False Cons.IH [of p] show ?thesis by simp
  next
    case True
    then have eq: "getPriority ` {k \<in> set (l # ls). isLocked k now} = insert (getPriority l) ?S"
      by auto
    have "Max (insert p (insert (getPriority l) ?S)) = Max (insert (max p (getPriority l)) ?S)"
      using fin by (rule Max_insert_insert)
    moreover have "lock_loop now (l # ls) p = lock_loop now ls (max p (getPriority l))"
      using True by (simp add: Let_def max_def)
    ultimately show ?thesis using Cons.IH [of "max p (getPriority l)"] eq by simp
  qed
qed

text \<open>
  The velocity loop either keeps its start values, and then no unmasked source is above
  the start priority, or it ends on the first unmasked source of maximal priority.
\<close>

lemma velocity_loop_cases:
  "(velocity_loop now lp vs (p, nm) = (p, nm) \<and>
      (\<forall>h\<in>set vs. \<not> isMasked h lp now \<longrightarrow> getPriority h \<le> p))
   \<or> (\<exists>pre w post. vs = pre @ w # post \<and> \<not> isMasked w lp now \<and> p < getPriority w \<and>
        velocity_loop now lp vs (p, nm) = (getPriority w, getName w) \<and>
        (\<forall>h\<in>set pre. \<not> isMasked h lp now \<longrightarrow> getPriority h < getPriority w) \<and>
        (\<forall>h\<in>set post. \<not> isMasked h lp now \<longrightarrow> getPriority h \<le> getPriority w))"
proof (induction vs arbitrary: p nm)
  case Nil
  then show ?case by simp
next
  case (Cons v vs)
  show ?case
  proof (cases "\<not> isMasked v lp now \<and> p < getPriority v")
    case False
    then have step: "velocity_loop now lp (v # vs) (p, nm) = velocity_loop now lp vs (p, nm)"
      by (auto simp: Let_def)
    from Cons.IH [of p nm] show ?thesis
    proof
      assume "velocity_loop now lp vs (p, nm) = (p, nm) \<and>
        (\<forall>h\<in>set vs. \<not> isMasked h lp now \<longrightarrow> getPriority h \<le> p)"
      with False step show ?thesis by auto
    next
      assume "\<exists>pre w post. vs = pre @ w # post \<and> \<not> isMasked w lp now \<and> p < getPriority w \<and>
        velocity_loop now lp vs (p, nm) = (getPriority w, getName w) \<and>
        (\<forall>h\<in>set pre. \<not> isMasked h lp now \<longrightarrow> getPriority h < getPriority w) \<and>
        (\<forall>h\<in>set post. \<not> isMasked h lp now \<longrightarrow> getPriority h \<le> getPriority w)"
      then obtain pre w post where d: "vs = pre @ w # post" "\<not> isMasked w lp now"
        "p < getPriority w"
        "velocity_loop now lp vs (p, nm) = (getPriority w, getName w)"
        "\<forall>h\<in>set pre. \<not> isMasked h lp now \<longrightarrow> getPriority h < getPriority w"
        "\<forall>h\<in>set post. \<not> isMasked h lp now \<longrightarrow> getPriority h \<le> getPriority w"
        by blast
      have "v # vs = (v # pre) @ w # post" using d(1) by simp
      moreover have "\<forall>h\<in>set (v # pre). \<not> isMasked h lp now \<longrightarrow> getPriority h < getPriority w"
        using d(3,5) False by auto
      ultimately show ?thesis using d(2,3,4,6) step by metis
    qed
  next
    case True
    then have step: "velocity_loop now lp (v # vs) (p, nm) =
        velocity_loop now lp vs (getPriority v, getName v)"
      by (simp add: Let_def)
    from Cons.IH [of "getPriority v" "getName v"] show ?thesis
    proof
      assume a: "velocity_loop now lp vs (getPriority v, getName v) = (getPriority v, getName v) \<and>
        (\<forall>h\<in>set vs. \<not> isMasked h lp now \<longrightarrow> getPriority h \<le> getPriority v)"
      have "v # vs = [] @ v # vs" by simp
      moreover have "\<forall>h\<in>set []. \<not> isMasked h lp now \<longrightarrow> getPriority h < getPriority v" by simp
      ultimately show ?thesis using a True step by metis
    next
      assume "\<exists>pre w post. vs = pre @ w # post \<and> \<not> isMasked w lp now \<and>
        getPriority v < getPriority w \<and>
        velocity_loop now lp vs (getPriority v, getName v) = (getPriority w, getName w) \<and>
        (\<forall>h\<in>set pre. \<not> isMasked h lp now \<longrightarrow> getPriority h < getPriority w) \<and>
        (\<forall>h\<in>set post. \<not> isMasked h lp now \<longrightarrow> getPriority h \<le> getPriority w)"
      then obtain pre w post where d: "vs = pre @ w # post" "\<not> isMasked w lp now"
        "getPriority v < getPriority w"
        "velocity_loop now lp vs (getPriority v, getName v) = (getPriority w, getName w)"
        "\<forall>h\<in>set pre. \<not> isMasked h lp now \<longrightarrow> getPriority h < getPriority w"
        "\<forall>h\<in>set post. \<not> isMasked h lp now \<longrightarrow> getPriority h \<le> getPriority w"
        by blast
      have "v # vs = (v # pre) @ w # post" using d(1) by simp
      moreover have "\<forall>h\<in>set (v # pre). \<not> isMasked h lp now \<longrightarrow> getPriority h < getPriority w"
        using d(3,5) by auto
      moreover have "p < getPriority w" using True d(3) by simp
      ultimately show ?thesis using d(2,4,6) step by metis
    qed
  qed
qed

lemma hasPriority_loop:
  "hasPriority mux s =
     (getName s = snd (velocity_loop (node_now mux) (fst (getLockPriority mux))
                         (velocity_hs mux) (0, ''NULL'')))"
  by (simp add: hasPriority_def getLockPriority_def split: prod.splits)

text \<open>With distinct names, a reception updates the handle at the position of its source.\<close>

lemma update_handle_nth:
  assumes "distinct (map getName vs)" and "i < length vs"
  shows "update_handle (getName (vs ! i)) m now vs =
           Some ((vs ! i)\<lparr>getStamp := Some now, last_msg := Some m\<rparr>,
                 vs[i := (vs ! i)\<lparr>getStamp := Some now, last_msg := Some m\<rparr>])"
  using assms
proof (induction vs arbitrary: i)
  case Nil
  then show ?case by simp
next
  case (Cons v vs)
  show ?case
  proof (cases i)
    case 0
    then show ?thesis by (simp add: Let_def)
  next
    case (Suc j)
    with Cons.prems have j: "j < length vs" and d: "distinct (map getName vs)"
      and "getName v \<notin> set (map getName vs)" by simp_all
    then have "getName v \<noteq> getName (vs ! j)" by (metis nth_map length_map nth_mem)
    with Cons.IH [OF d j] Suc show ?thesis by simp
  qed
qed

text \<open>
  On a registry with distinct names that does not use the literal \<open>NULL\<close>, a source of
  positive priority has priority exactly when it is the first maximum.
\<close>

lemma hasPriority_first_max:
  assumes dist: "distinct (map getName (velocity_hs mux))"
    and null: "''NULL'' \<notin> set (map getName (velocity_hs mux))"
    and i: "i < length (velocity_hs mux)"
    and pos: "0 < getPriority (velocity_hs mux ! i)"
  shows "hasPriority mux (velocity_hs mux ! i) = first_max_winner mux i"
proof -
  define vs where "vs = velocity_hs mux"
  define lp where "lp = fst (getLockPriority mux)"
  define now where "now = node_now mux"
  have hp: "hasPriority mux (vs ! i) = (getName (vs ! i) = snd (velocity_loop now lp vs (0, ''NULL'')))"
    by (simp add: hasPriority_loop vs_def lp_def now_def)
  have fm: "first_max_winner mux i =
      (\<not> isMasked (vs ! i) lp now \<and>
       (\<forall>h\<in>set vs. \<not> isMasked h lp now \<longrightarrow> getPriority h \<le> getPriority (vs ! i)) \<and>
       (\<forall>h\<in>set (take i vs). \<not> isMasked h lp now \<longrightarrow> getPriority h < getPriority (vs ! i)))"
    using i by (simp add: first_max_winner_def Let_def vs_def lp_def now_def)
  have i': "i < length vs" using i by (simp add: vs_def)
  have name_i: "getName (vs ! i) \<noteq> ''NULL''"
    using null i' by (metis vs_def nth_map length_map nth_mem)
  from velocity_loop_cases [of now lp vs 0 "''NULL''"]
  show ?thesis
  proof
    assume a: "velocity_loop now lp vs (0, ''NULL'') = (0, ''NULL'') \<and>
      (\<forall>h\<in>set vs. \<not> isMasked h lp now \<longrightarrow> getPriority h \<le> 0)"
    then have "\<not> hasPriority mux (vs ! i)" using hp name_i by simp
    moreover have "\<not> first_max_winner mux i"
    proof
      assume "first_max_winner mux i"
      then have "\<not> isMasked (vs ! i) lp now" using fm by simp
      then have "getPriority (vs ! i) \<le> 0" using a i' by simp
      then show False using pos by (simp add: vs_def)
    qed
    ultimately show ?thesis by (simp add: vs_def)
  next
    assume "\<exists>pre w post. vs = pre @ w # post \<and> \<not> isMasked w lp now \<and> 0 < getPriority w \<and>
      velocity_loop now lp vs (0, ''NULL'') = (getPriority w, getName w) \<and>
      (\<forall>h\<in>set pre. \<not> isMasked h lp now \<longrightarrow> getPriority h < getPriority w) \<and>
      (\<forall>h\<in>set post. \<not> isMasked h lp now \<longrightarrow> getPriority h \<le> getPriority w)"
    then obtain pre w post where d: "vs = pre @ w # post" "\<not> isMasked w lp now"
      "velocity_loop now lp vs (0, ''NULL'') = (getPriority w, getName w)"
      "\<forall>h\<in>set pre. \<not> isMasked h lp now \<longrightarrow> getPriority h < getPriority w"
      "\<forall>h\<in>set post. \<not> isMasked h lp now \<longrightarrow> getPriority h \<le> getPriority w"
      by blast
    define k where "k = length pre"
    have k: "k < length vs" and wk: "vs ! k = w" and tk: "take k vs = pre"
      using d(1) by (simp_all add: k_def)
    have "hasPriority mux (vs ! i) = (getName (vs ! i) = getName (vs ! k))"
      using hp d(3) wk by simp
    also have "\<dots> = (map getName vs ! i = map getName vs ! k)"
      using i' k by simp
    also have "\<dots> = (i = k)"
    proof -
      have "distinct (map getName vs)" using dist by (simp add: vs_def)
      moreover have "i < length (map getName vs)" "k < length (map getName vs)"
        using i' k by simp_all
      ultimately show ?thesis by (rule nth_eq_iff_index_eq)
    qed
    finally have left: "hasPriority mux (vs ! i) = (i = k)" .
    have w_in: "w \<in> set vs" using d(1) by simp
    have right: "first_max_winner mux i = (i = k)"
    proof
      assume w: "first_max_winner mux i"
      from w fm have un_i: "\<not> isMasked (vs ! i) lp now" by simp
      from w fm have all_le: "\<forall>h\<in>set vs. \<not> isMasked h lp now \<longrightarrow> getPriority h \<le> getPriority (vs ! i)"
        by simp
      from w fm have before: "\<forall>h\<in>set (take i vs). \<not> isMasked h lp now \<longrightarrow> getPriority h < getPriority (vs ! i)"
        by simp
      have w_le: "getPriority w \<le> getPriority (vs ! i)"
        using all_le w_in d(2) by blast
      show "i = k"
      proof (rule ccontr)
        assume "i \<noteq> k"
        then consider "i < k" | "k < i" by linarith
        then show False
        proof cases
          case 1
          then have "vs ! i = pre ! i" using d(1) k_def by (simp add: nth_append)
          then have "vs ! i \<in> set pre" using 1 k_def by simp
          then have "getPriority (vs ! i) < getPriority w" using d(4) un_i by blast
          then show False using w_le by simp
        next
          case 2
          have "take i vs ! k = vs ! k" using 2 by simp
          moreover have "k < length (take i vs)" using 2 i' by simp
          ultimately have "w \<in> set (take i vs)" using wk nth_mem by metis
          then have lt: "getPriority w < getPriority (vs ! i)" using before d(2) by blast
          have "vs ! i = post ! (i - Suc k)"
            using d(1) 2 k_def by (simp add: nth_append nth_Cons')
          moreover have "i - Suc k < length post" using 2 i' d(1) k_def by simp
          ultimately have "vs ! i \<in> set post" by simp
          then have "getPriority (vs ! i) \<le> getPriority w" using d(5) un_i by blast
          then show False using lt by simp
        qed
      qed
    next
      assume ik: "i = k"
      have "\<forall>h\<in>set vs. \<not> isMasked h lp now \<longrightarrow> getPriority h \<le> getPriority w"
      proof (intro ballI impI)
        fix h assume h: "h \<in> set vs" "\<not> isMasked h lp now"
        then consider "h \<in> set pre" | "h = w" | "h \<in> set post" using d(1) by auto
        then show "getPriority h \<le> getPriority w"
        proof cases
          case 1
          then have "getPriority h < getPriority w" using d(4) h(2) by blast
          then show ?thesis by simp
        next
          case 2
          then show ?thesis by simp
        next
          case 3
          then show ?thesis using d(5) h(2) by blast
        qed
      qed
      then show "first_max_winner mux i" using fm ik wk tk d(2,4) by simp
    qed
    from left right show ?thesis by (simp add: vs_def)
  qed
qed

lemma velocity_loop_all_masked:
  assumes "\<forall>h\<in>set vs. isMasked h lp now"
  shows "velocity_loop now lp vs acc = acc"
  using assms by (induction vs arbitrary: acc) (auto simp: Let_def)

lemma update_handle_mem:
  "update_handle nm m now vs = Some (h1, hs1) \<Longrightarrow> h1 \<in> set hs1"
proof (induction vs arbitrary: h1 hs1)
  case Nil
  then show ?case by simp
next
  case (Cons v vs)
  show ?case
  proof (cases "getName v = nm")
    case True
    with Cons.prems show ?thesis by (auto simp: Let_def)
  next
    case False
    with Cons.prems obtain r where r: "update_handle nm m now vs = Some (h1, r)" "hs1 = v # r"
      by (auto split: option.splits)
    from Cons.IH [OF r(1)] r(2) show ?thesis by simp
  qed
qed

lemma fless_fabs_abs_exceeds: "fless (fabs b) (fabs a) = abs_exceeds a b"
  by (cases a; cases b) simp_all

lemma publishTwist_four_cases:
  assumes "publisher_matches mux"
  shows "publishTwist mux m = Published (four_cases (output_stamped mux) m)"
  using assms
  by (cases m) (simp_all add: publisher_matches_def publishTwist_def four_cases_def)

lemmas example_defs =
  two_sources_def tie_mux_def zero_mux_def locked_mux_def init_def TwistMux_new_def
  source_def asserted_lock_def

lemmas engine_defs =
  hasPriority_def getLockPriority_def isMasked_def isLocked_def hasExpired_def

section \<open>The claims\<close>

text \<open>
  C3. For every node and every clock reading, \<open>getLockPriority\<close> returns the maximum of
  the priorities of the lock handles that are locked at that time, and 0 when no lock
  handle is locked.
\<close>

theorem getLockPriority_max:
  "fst (getLockPriority mux) =
     (if \<exists>l\<in>set (lock_hs mux). isLocked l (node_now mux)
      then Max (getPriority ` {l \<in> set (lock_hs mux). isLocked l (node_now mux)})
      else 0)"
proof -
  let ?S = "getPriority ` {l \<in> set (lock_hs mux). isLocked l (node_now mux)}"
  have eq: "fst (getLockPriority mux) = Max (insert 0 ?S)"
    by (simp add: getLockPriority_def lock_loop_Max)
  show ?thesis
  proof (cases "\<exists>l\<in>set (lock_hs mux). isLocked l (node_now mux)")
    case True
    then have "?S \<noteq> {}" by auto
    moreover have "finite ?S" by simp
    ultimately have "Max (insert 0 ?S) = max 0 (Max ?S)" by simp
    with eq True show ?thesis by simp
  next
    case False
    then have "?S = {}" by auto
    with eq False show ?thesis by simp
  qed
qed

theorem getLockPriority_max_witness:
  "(\<exists>l\<in>set (lock_hs locked_mux). isLocked l (node_now locked_mux)) \<and>
   fst (getLockPriority locked_mux) =
     Max (getPriority ` {l \<in> set (lock_hs locked_mux). isLocked l (node_now locked_mux)}) \<and>
   fst (getLockPriority locked_mux) = 10 \<and>
   \<not> (\<exists>l\<in>set (lock_hs two_sources). isLocked l (node_now two_sources)) \<and>
   fst (getLockPriority two_sources) = 0"
proof -
  have a: "\<exists>l\<in>set (lock_hs locked_mux). isLocked l (node_now locked_mux)"
    by (simp add: example_defs isLocked_def)
  have b: "\<not> (\<exists>l\<in>set (lock_hs two_sources). isLocked l (node_now two_sources))"
    by (simp add: example_defs)
  have c: "fst (getLockPriority locked_mux) = 10"
    by (simp add: example_defs engine_defs)
  from a b c getLockPriority_max [of locked_mux] getLockPriority_max [of two_sources]
  show ?thesis by simp
qed

text \<open>
  C9. Calling \<open>getLockPriority\<close> twice in a row, at the same clock reading and with no
  update in between, gives the same result twice, and neither call changes the node.
\<close>

theorem getLockPriority_idempotent:
  "(let (p1, mux1) = getLockPriority mux;
        (p2, mux2) = getLockPriority mux1
    in p2 = p1 \<and> mux1 = mux \<and> mux2 = mux)"
  by (simp add: getLockPriority_def)

text \<open>
  C10. \<open>hasIncreasedAbsVelocity old new\<close> holds exactly when the absolute value of the new
  \<open>linear.x\<close> exceeds that of the old one, or the absolute value of the new \<open>angular.z\<close>
  exceeds that of the old one; whatever the other four components of either command
  are, the result is the same.
\<close>

theorem hasIncreasedAbsVelocity_iff:
  "hasIncreasedAbsVelocity old_twist new_twist =
     (abs_exceeds (vec_x (linear new_twist)) (vec_x (linear old_twist)) \<or>
      abs_exceeds (vec_z (angular new_twist)) (vec_z (angular old_twist))) \<and>
   hasIncreasedAbsVelocity
     \<lparr>linear = \<lparr>vec_x = vec_x (linear old_twist), vec_y = a1, vec_z = a2\<rparr>,
      angular = \<lparr>vec_x = a3, vec_y = a4, vec_z = vec_z (angular old_twist)\<rparr>\<rparr>
     \<lparr>linear = \<lparr>vec_x = vec_x (linear new_twist), vec_y = b1, vec_z = b2\<rparr>,
      angular = \<lparr>vec_x = b3, vec_y = b4, vec_z = vec_z (angular new_twist)\<rparr>\<rparr> =
     hasIncreasedAbsVelocity old_twist new_twist"
  by (simp add: hasIncreasedAbsVelocity_def fless_fabs_abs_exceeds)

text \<open>
  C2. For every velocity source and every node: a source that is not stale is masked,
  under the effective lock priority, if and only if its priority is strictly less than
  that lock priority; and a source whose priority equals the effective lock priority is
  masked only when it is stale, never by the locks.
\<close>

theorem isMasked_by_locks:
  "(\<not> hasExpired h (node_now mux) \<longrightarrow>
      isMasked h (fst (getLockPriority mux)) (node_now mux) =
        (getPriority h < fst (getLockPriority mux))) \<and>
   (getPriority h = fst (getLockPriority mux) \<longrightarrow>
      isMasked h (fst (getLockPriority mux)) (node_now mux) = hasExpired h (node_now mux))"
  by (simp add: isMasked_def)

theorem isMasked_by_locks_witness:
  "\<not> hasExpired (source ''topics.drive'' 10 1) (node_now locked_mux) \<and>
   getPriority (source ''topics.drive'' 10 1) < fst (getLockPriority locked_mux) \<and>
   isMasked (source ''topics.drive'' 10 1) (fst (getLockPriority locked_mux))
     (node_now locked_mux) \<and>
   getPriority (source ''topics.arm'' 10 10) = fst (getLockPriority locked_mux) \<and>
   \<not> isMasked (source ''topics.arm'' 10 10) (fst (getLockPriority locked_mux))
     (node_now locked_mux)"
proof -
  have lp: "fst (getLockPriority locked_mux) = 10"
    by (simp add: example_defs engine_defs)
  have fresh: "\<not> hasExpired (source ''topics.drive'' 10 1) (node_now locked_mux)"
    "\<not> hasExpired (source ''topics.arm'' 10 10) (node_now locked_mux)"
    by (simp_all add: example_defs hasExpired_def)
  have prio: "getPriority (source ''topics.drive'' 10 1) = 1"
    "getPriority (source ''topics.arm'' 10 10) = 10"
    by (simp_all add: source_def)
  from lp fresh prio
    isMasked_by_locks [of "source ''topics.drive'' 10 1" locked_mux]
    isMasked_by_locks [of "source ''topics.arm'' 10 10" locked_mux]
  show ?thesis by simp
qed

text \<open>
  C7. With a time-stamped output and the publisher that \<open>init\<close> creates for it, publishing
  a time-stamped command passes it through: the published message is the received one,
  header and payload.
\<close>

theorem publishTwist_stamped_passthrough:
  assumes "output_stamped mux" and "publisher_matches mux"
  shows "publishTwist mux (TwistStampedMsg s) = Published (OutTwistStamped s)"
  using assms by (simp add: publishTwist_def publisher_matches_def)

theorem publishTwist_stamped_passthrough_witness:
  "output_stamped locked_mux \<and> publisher_matches locked_mux \<and>
   publishTwist locked_mux (TwistStampedMsg stamped1) = Published (OutTwistStamped stamped1)"
proof -
  have a: "output_stamped locked_mux" by (simp add: example_defs)
  have b: "publisher_matches locked_mux" by (simp add: example_defs publisher_matches_def)
  from a b publishTwist_stamped_passthrough [OF a b, of stamped1] show ?thesis by simp
qed

text \<open>
  C5, as the claim states it, fails: at clock reading 1, with a time-stamped output, the
  record published for a bare command carries the time stamp 0, not 1.
\<close>

theorem publishTwist_stamp_counterexample:
  "output_stamped locked_mux \<and> publisher_matches locked_mux \<and> node_now locked_mux = 1 \<and>
   out_payload (publishTwist locked_mux (TwistMsg twist1)) = Some twist1 \<and>
   out_stamp (publishTwist locked_mux (TwistMsg twist1)) = Some 0 \<and>
   out_stamp (publishTwist locked_mux (TwistMsg twist1)) \<noteq> Some (node_now locked_mux)"
  by (simp add: example_defs publisher_matches_def publishTwist_def default_Header_def)

text \<open>
  C5, amended. With a time-stamped output and the publisher that \<open>init\<close> creates for it,
  publishing a bare command publishes a time-stamped record whose payload is the command
  and whose header is the default one: time stamp 0 and an empty frame id, whatever the
  clock reads.
\<close>

theorem publishTwist_bare_wrapped:
  assumes "output_stamped mux" and "publisher_matches mux"
  shows "publishTwist mux (TwistMsg t) =
           Published (OutTwistStamped \<lparr>header = \<lparr>stamp = 0, frame_id = []\<rparr>, twist = t\<rparr>) \<and>
         out_payload (publishTwist mux (TwistMsg t)) = Some t \<and>
         out_stamp (publishTwist mux (TwistMsg t)) = Some 0"
  using assms by (simp add: publishTwist_def publisher_matches_def default_Header_def)

theorem publishTwist_bare_wrapped_witness:
  "output_stamped locked_mux \<and> publisher_matches locked_mux \<and>
   publishTwist locked_mux (TwistMsg twist1) =
     Published (OutTwistStamped \<lparr>header = \<lparr>stamp = 0, frame_id = []\<rparr>, twist = twist1\<rparr>)"
proof -
  have a: "output_stamped locked_mux" by (simp add: example_defs)
  have b: "publisher_matches locked_mux" by (simp add: example_defs publisher_matches_def)
  from a b publishTwist_bare_wrapped [OF a b, of twist1] show ?thesis by simp
qed

text \<open>
  C8. \<open>init\<close> leaves the node with the publisher that matches \<open>output_stamped\<close>; a
  reception keeps it so; and on such a node every call of \<open>publishTwist\<close> publishes the
  message given by one of the four conversions, so neither fatal report is reached.
\<close>

theorem publishTwist_mismatch_unreachable:
  "publisher_matches (init topics locks stamped_param mux0) \<and>
   (publisher_matches mux \<longrightarrow>
      publishTwist mux m = Published (four_cases (output_stamped mux) m) \<and>
      (\<forall>source_name out mux1.
          onVelocityReceived mux source_name m = Inr (out, mux1) \<longrightarrow>
            publisher_matches mux1 \<and>
            (out = None \<or> out = Some (Published (four_cases (output_stamped mux1) m)))))"
proof (intro conjI impI allI)
  show "publisher_matches (init topics locks stamped_param mux0)"
    by (simp add: init_def publisher_matches_def Let_def)
next
  assume "publisher_matches mux"
  then show "publishTwist mux m = Published (four_cases (output_stamped mux) m)"
    by (rule publishTwist_four_cases)
next
  fix source_name out mux1
  assume pm: "publisher_matches mux"
    and r: "onVelocityReceived mux source_name m = Inr (out, mux1)"
  from r obtain h1 hs1 where
    u: "update_handle source_name m (node_now mux) (velocity_hs mux) = Some (h1, hs1)"
    by (auto simp: onVelocityReceived_def split: option.splits)
  from r u have m1: "mux1 = mux\<lparr>velocity_hs := hs1\<rparr>"
    and o: "out = (if hasPriority mux1 h1 then Some (publishTwist mux1 m) else None)"
    by (auto simp: onVelocityReceived_def Let_def split: if_splits)
  from pm m1 show "publisher_matches mux1" by (simp add: publisher_matches_def)
  then have "publishTwist mux1 m = Published (four_cases (output_stamped mux1) m)"
    by (rule publishTwist_four_cases)
  with o show "out = None \<or> out = Some (Published (four_cases (output_stamped mux1) m))"
    by simp
qed

theorem publishTwist_mismatch_unreachable_witness:
  "publisher_matches two_sources \<and>
   publishTwist two_sources (TwistStampedMsg stamped1) = Published (OutTwist twist1) \<and>
   publishTwist two_sources (TwistMsg twist2) = Published (OutTwist twist2) \<and>
   publisher_matches locked_mux \<and>
   publishTwist locked_mux (TwistStampedMsg stamped1) = Published (OutTwistStamped stamped1) \<and>
   publishTwist locked_mux (TwistMsg twist2) =
     Published (OutTwistStamped \<lparr>header = default_Header, twist = twist2\<rparr>)"
proof -
  have a: "publisher_matches two_sources"
    unfolding two_sources_def
    using publishTwist_mismatch_unreachable by (rule conjunct1)
  have b: "publisher_matches locked_mux"
    unfolding locked_mux_def
    using publishTwist_mismatch_unreachable by (rule conjunct1)
  have four: "publishTwist mux m = Published (four_cases (output_stamped mux) m)"
    if "publisher_matches mux" for mux m
    using that publishTwist_mismatch_unreachable [of "[]" "[]" False "TwistMux_new 0" mux m]
    by blast
  have c: "\<not> output_stamped two_sources" "output_stamped locked_mux"
    by (simp_all add: example_defs)
  have d: "twist stamped1 = twist1" by (simp add: stamped1_def)
  from four [OF a, of "TwistStampedMsg stamped1"] four [OF a, of "TwistMsg twist2"]
    four [OF b, of "TwistStampedMsg stamped1"] four [OF b, of "TwistMsg twist2"]
  have "publishTwist two_sources (TwistStampedMsg stamped1) = Published (OutTwist twist1)"
    "publishTwist two_sources (TwistMsg twist2) = Published (OutTwist twist2)"
    "publishTwist locked_mux (TwistStampedMsg stamped1) = Published (OutTwistStamped stamped1)"
    "publishTwist locked_mux (TwistMsg twist2) =
       Published (OutTwistStamped \<lparr>header = default_Header, twist = twist2\<rparr>)"
    using c d by (simp_all add: four_cases_def)
  with a b show ?thesis by blast
qed

text \<open>
  C1, as the claim states it, fails: of two fresh sources of the same priority 5,
  \<open>hasPriority\<close> is true for the one registered first, although its priority is not
  strictly greater than that of the other unmasked source.
\<close>

theorem hasPriority_tie_counterexample:
  "hasPriority tie_mux (velocity_hs tie_mux ! 0) \<and> \<not> strictly_greatest_unmasked tie_mux 0"
proof -
  have vs: "velocity_hs tie_mux =
      [source ''topics.first'' 10 5, source ''topics.second'' 10 5]"
    by (simp add: example_defs)
  have lp: "fst (getLockPriority tie_mux) = 0"
    by (simp add: example_defs engine_defs)
  have now: "node_now tie_mux = 1"
    by (simp add: example_defs)
  have "hasPriority tie_mux (velocity_hs tie_mux ! 0)"
    by (simp add: hasPriority_loop vs lp now isMasked_def hasExpired_def source_def)
  moreover have "\<not> strictly_greatest_unmasked tie_mux 0"
    by (simp add: strictly_greatest_unmasked_def vs lp now isMasked_def hasExpired_def
        source_def)
  ultimately show ?thesis by blast
qed

text \<open>
  C1, amended. On a registry whose names are distinct and do not include the literal
  \<open>NULL\<close>, for every registered source of positive priority: \<open>hasPriority\<close> is true if and
  only if the source is the first maximum, that is, it is unmasked under the effective
  lock priority computed at that call, no unmasked source has a greater priority, and
  every unmasked source registered before it has a strictly smaller priority. A velocity
  update of that source is published exactly when the source is the first maximum once
  the update is recorded, and is dropped otherwise.
\<close>

theorem hasPriority_iff_first_max_winner:
  assumes dist: "distinct (map getName (velocity_hs mux))"
    and null: "''NULL'' \<notin> set (map getName (velocity_hs mux))"
    and i: "i < length (velocity_hs mux)"
    and pos: "0 < getPriority (velocity_hs mux ! i)"
  shows "hasPriority mux (velocity_hs mux ! i) = first_max_winner mux i \<and>
         onVelocityReceived mux (getName (velocity_hs mux ! i)) m =
           Inr (if first_max_winner (received mux i m) i
                then Some (publishTwist (received mux i m) m) else None,
                received mux i m)"
proof
  show "hasPriority mux (velocity_hs mux ! i) = first_max_winner mux i"
    using dist null i pos by (rule hasPriority_first_max)
next
  define vs where "vs = velocity_hs mux"
  define s1 where "s1 = (vs ! i)\<lparr>getStamp := Some (node_now mux), last_msg := Some m\<rparr>"
  define mux1 where "mux1 = received mux i m"
  have i': "i < length vs" using i by (simp add: vs_def)
  have vs1: "velocity_hs mux1 = vs[i := s1]"
    by (simp add: mux1_def received_def vs_def s1_def)
  have rec: "mux\<lparr>velocity_hs := vs[i := s1]\<rparr> = mux1"
    by (simp add: mux1_def received_def vs_def s1_def)
  have at_i: "velocity_hs mux1 ! i = s1" using i' by (simp add: vs1)
  have "map getName (vs[i := s1]) = (map getName vs)[i := getName (vs ! i)]"
    by (simp add: map_update s1_def)
  also have "\<dots> = map getName vs"
    using i' by (metis list_update_id nth_map)
  finally have names: "map getName (velocity_hs mux1) = map getName (velocity_hs mux)"
    by (simp add: vs1 vs_def)
  have dist1: "distinct (map getName (velocity_hs mux1))" using dist names by simp
  have null1: "''NULL'' \<notin> set (map getName (velocity_hs mux1))" using null names by simp
  have i1: "i < length (velocity_hs mux1)" using i' by (simp add: vs1)
  have pos1: "0 < getPriority (velocity_hs mux1 ! i)"
    using pos by (simp add: at_i s1_def vs_def)
  have win: "hasPriority mux1 s1 = first_max_winner mux1 i"
    using hasPriority_first_max [OF dist1 null1 i1 pos1] by (simp add: at_i)
  have "update_handle (getName (vs ! i)) m (node_now mux) vs = Some (s1, vs[i := s1])"
    unfolding s1_def using dist i' unfolding vs_def by (rule update_handle_nth)
  then have "onVelocityReceived mux (getName (vs ! i)) m =
      Inr (if hasPriority mux1 s1 then Some (publishTwist mux1 m) else None, mux1)"
    by (simp add: onVelocityReceived_def vs_def [symmetric] rec)
  then have "onVelocityReceived mux (getName (vs ! i)) m =
      Inr (if first_max_winner mux1 i then Some (publishTwist mux1 m) else None, mux1)"
    by (simp only: win)
  then show "onVelocityReceived mux (getName (velocity_hs mux ! i)) m =
      Inr (if first_max_winner (received mux i m) i
           then Some (publishTwist (received mux i m) m) else None,
           received mux i m)"
    unfolding vs_def mux1_def .
qed

theorem hasPriority_iff_first_max_winner_witness:
  "distinct (map getName (velocity_hs two_sources)) \<and>
   ''NULL'' \<notin> set (map getName (velocity_hs two_sources)) \<and>
   (1::nat) < length (velocity_hs two_sources) \<and>
   0 < getPriority (velocity_hs two_sources ! 1) \<and>
   0 < getPriority (velocity_hs two_sources ! 0) \<and>
   hasPriority two_sources (velocity_hs two_sources ! 1) \<and>
   first_max_winner two_sources 1 \<and>
   \<not> hasPriority two_sources (velocity_hs two_sources ! 0) \<and>
   \<not> first_max_winner two_sources 0 \<and>
   onVelocityReceived two_sources ''topics.teleop'' (TwistMsg twist2) =
     Inr (Some (Published (OutTwist twist2)), received two_sources 1 (TwistMsg twist2)) \<and>
   onVelocityReceived two_sources ''topics.drive'' (TwistMsg twist2) =
     Inr (None, received two_sources 0 (TwistMsg twist2))"
proof -
  have vs: "velocity_hs two_sources =
      [source ''topics.drive'' 10 1, source ''topics.teleop'' 5 5]"
    by (simp add: example_defs)
  have lp: "fst (getLockPriority mux) = 0" if "lock_hs mux = []" for mux
    using that by (simp add: getLockPriority_def)
  have now: "node_now two_sources = 1"
    by (simp add: example_defs)
  have locks: "lock_hs two_sources = []"
    by (simp add: example_defs)
  have dist: "distinct (map getName (velocity_hs two_sources))"
    by (simp add: vs source_def)
  have null: "''NULL'' \<notin> set (map getName (velocity_hs two_sources))"
    by (simp add: vs source_def)
  have len: "(0::nat) < length (velocity_hs two_sources)" "(1::nat) < length (velocity_hs two_sources)"
    by (simp_all add: vs)
  have pos: "0 < getPriority (velocity_hs two_sources ! 0)"
    "0 < getPriority (velocity_hs two_sources ! 1)"
    by (simp_all add: vs source_def)
  have nm: "getName (velocity_hs two_sources ! 0) = ''topics.drive''"
    "getName (velocity_hs two_sources ! 1) = ''topics.teleop''"
    by (simp_all add: vs source_def)
  have w1: "first_max_winner two_sources 1"
    by (simp add: first_max_winner_def vs lp [OF locks] now isMasked_def hasExpired_def
        source_def)
  have w0: "\<not> first_max_winner two_sources 0"
    by (simp add: first_max_winner_def vs lp [OF locks] now isMasked_def hasExpired_def
        source_def)
  have r1: "first_max_winner (received two_sources 1 (TwistMsg twist2)) 1"
    by (simp add: first_max_winner_def received_def vs lp locks now isMasked_def
        hasExpired_def source_def)
  have r0: "\<not> first_max_winner (received two_sources 0 (TwistMsg twist2)) 0"
    by (simp add: first_max_winner_def received_def vs lp locks now isMasked_def
        hasExpired_def source_def)
  have pub: "publishTwist (received two_sources 1 (TwistMsg twist2)) (TwistMsg twist2) =
      Published (OutTwist twist2)"
    by (simp add: publishTwist_def received_def example_defs)
  from hasPriority_iff_first_max_winner [OF dist null len(2) pos(2), of "TwistMsg twist2"]
    hasPriority_iff_first_max_winner [OF dist null len(1) pos(1), of "TwistMsg twist2"]
    w1 w0 r1 r0 pub nm dist null len pos
  show ?thesis by simp
qed

text \<open>
  C4 says that among unmasked sources sharing the highest priority, the one registered
  first wins. At two fresh, unmasked sources that share the highest priority 0,
  \<open>hasPriority\<close> is false for both: the source registered first does not win, and neither
  does the other.
\<close>

theorem hasPriority_zero_priority_tie:
  "\<not> isMasked (velocity_hs zero_mux ! 0) (fst (getLockPriority zero_mux)) (node_now zero_mux) \<and>
   \<not> isMasked (velocity_hs zero_mux ! 1) (fst (getLockPriority zero_mux)) (node_now zero_mux) \<and>
   length (velocity_hs zero_mux) = 2 \<and>
   getPriority (velocity_hs zero_mux ! 0) = getPriority (velocity_hs zero_mux ! 1) \<and>
   \<not> hasPriority zero_mux (velocity_hs zero_mux ! 0) \<and>
   \<not> hasPriority zero_mux (velocity_hs zero_mux ! 1)"
proof -
  have vs: "velocity_hs zero_mux =
      [source ''topics.first'' 10 0, source ''topics.second'' 10 0]"
    by (simp add: example_defs)
  have lp: "fst (getLockPriority zero_mux) = 0"
    by (simp add: example_defs engine_defs)
  have now: "node_now zero_mux = 1"
    by (simp add: example_defs)
  show ?thesis
    by (simp add: hasPriority_loop vs lp now isMasked_def hasExpired_def source_def)
qed

text \<open>
  C6. If every registered velocity source is masked when \<open>hasPriority\<close> is called, then
  \<open>hasPriority\<close> is false for every registered source, and a reception that leaves the
  node in such a state publishes nothing. (Handle names are the parameter prefixes under
  which the sources are configured; none of them is the literal \<open>NULL\<close> that
  \<open>hasPriority\<close> starts from.)
\<close>

theorem hasPriority_all_masked:
  assumes masked: "\<forall>h\<in>set (velocity_hs mux).
                     isMasked h (fst (getLockPriority mux)) (node_now mux)"
    and null: "''NULL'' \<notin> set (map getName (velocity_hs mux))"
  shows "(\<forall>s\<in>set (velocity_hs mux). \<not> hasPriority mux s) \<and>
         (\<forall>mux0 source_name m out.
             onVelocityReceived mux0 source_name m = Inr (out, mux) \<longrightarrow> out = None)"
proof -
  have loop: "velocity_loop (node_now mux) (fst (getLockPriority mux)) (velocity_hs mux)
                (0, ''NULL'') = (0, ''NULL'')"
    using masked by (rule velocity_loop_all_masked)
  have none: "\<not> hasPriority mux s" if "s \<in> set (velocity_hs mux)" for s
  proof -
    from that have "getName s \<in> set (map getName (velocity_hs mux))" by simp
    with null have "getName s \<noteq> ''NULL''" by metis
    then show ?thesis by (simp add: hasPriority_loop loop)
  qed
  have drop: "out = None" if r: "onVelocityReceived mux0 source_name m = Inr (out, mux)"
    for mux0 source_name m out
  proof -
    from r obtain h1 hs1 where
      u: "update_handle source_name m (node_now mux0) (velocity_hs mux0) = Some (h1, hs1)"
      by (auto simp: onVelocityReceived_def split: option.splits)
    from r u have m1: "mux = mux0\<lparr>velocity_hs := hs1\<rparr>"
      and o: "out = (if hasPriority mux h1 then Some (publishTwist mux m) else None)"
      by (auto simp: onVelocityReceived_def Let_def split: if_splits)
    from u have "h1 \<in> set hs1" by (rule update_handle_mem)
    with m1 have "h1 \<in> set (velocity_hs mux)" by simp
    then have "\<not> hasPriority mux h1" by (rule none)
    with o show ?thesis by simp
  qed
  from none drop show ?thesis by blast
qed

theorem hasPriority_all_masked_witness:
  "velocity_hs (received locked_mux 0 (TwistMsg twist2)) =
     [(source ''topics.drive'' 10 1)\<lparr>getStamp := Some 1, last_msg := Some (TwistMsg twist2)\<rparr>] \<and>
   isMasked (velocity_hs (received locked_mux 0 (TwistMsg twist2)) ! 0)
     (fst (getLockPriority (received locked_mux 0 (TwistMsg twist2))))
     (node_now (received locked_mux 0 (TwistMsg twist2))) \<and>
   \<not> hasPriority (received locked_mux 0 (TwistMsg twist2))
       (velocity_hs (received locked_mux 0 (TwistMsg twist2)) ! 0) \<and>
   onVelocityReceived locked_mux ''topics.drive'' (TwistMsg twist2) =
     Inr (None, received locked_mux 0 (TwistMsg twist2))"
proof -
  define M where "M = received locked_mux 0 (TwistMsg twist2)"
  have vs: "velocity_hs M =
      [(source ''topics.drive'' 10 1)\<lparr>getStamp := Some 1, last_msg := Some (TwistMsg twist2)\<rparr>]"
    by (simp add: M_def received_def example_defs)
  have lp: "fst (getLockPriority M) = 10"
    by (simp add: M_def received_def example_defs engine_defs)
  have now: "node_now M = 1"
    by (simp add: M_def received_def example_defs)
  have m0: "isMasked (velocity_hs M ! 0) (fst (getLockPriority M)) (node_now M)"
    by (simp add: vs lp now isMasked_def source_def)
  then have masked: "\<forall>h\<in>set (velocity_hs M). isMasked h (fst (getLockPriority M)) (node_now M)"
    by (simp add: vs)
  have null: "''NULL'' \<notin> set (map getName (velocity_hs M))"
    by (simp add: vs source_def)
  have upd: "update_handle ''topics.drive'' (TwistMsg twist2) (node_now locked_mux)
               (velocity_hs locked_mux) = Some (velocity_hs M ! 0, velocity_hs M)"
    by (simp add: vs example_defs Let_def)
  have rec: "locked_mux\<lparr>velocity_hs := velocity_hs M\<rparr> = M"
    by (simp add: M_def received_def example_defs)
  note all = hasPriority_all_masked [OF masked null]
  from all have no: "\<not> hasPriority M (velocity_hs M ! 0)" by (simp add: vs)
  have "onVelocityReceived locked_mux ''topics.drive'' (TwistMsg twist2) = Inr (None, M)"
    using upd rec no by (simp add: onVelocityReceived_def)
  with vs m0 no show ?thesis unfolding M_def by blast
qed

end
